theory Spec2Isabelle
  imports Main "HOL-Library.Word"
begin

section \<open>Data model of \<open>sitn-product-search.ts\<close>\<close>

text \<open>
  The catalog entry and the page of results, as the two interfaces of the source
  declare them.  \<open>next\<close> and \<open>previous\<close> are \<open>string | null\<close>.
\<close>

record Product =
  label :: string
  metadata :: string

record ApiResponse =
  count :: int
  "next" :: "string option"
  previous :: "string option"
  results :: "Product list"

text \<open>
  The children of the \<open>.suggestions-dropdown\<close> container.  A suggestion item carries
  the flag for the class \<open>even\<close>, the URL its click handler opens, and the \<open>href\<close>
  and text of its link.  Every sentinel is a fresh element; it is identified by a number.
\<close>

datatype element =
    is_SuggestionItem: SuggestionItem (even: bool) (onclick: string) (href: string) (textContent: string)
  | Sentinel nat
  | NoResults
  | LoadingEl

text \<open>
  The shadow tree after \<open>render()\<close>: whether the input carries the class
  \<open>suggested\<close>, and the children of the container.
\<close>

record dom =
  suggested :: bool
  children :: "element list"

text \<open>
  What the browser holds for the widget: armed timers (handle, due time in milliseconds,
  and the term the callback closes over) and requests in flight (the abort signal passed
  to \<open>fetch\<close>, if any, and the method that awaits the answer).  The field \<open>gen\<close> of
  a request is the value of the history variable \<open>generation\<close> when it was issued.
\<close>

text \<open>
  A search term is a JavaScript string: a sequence of UTF-16 code units, in which a
  surrogate may stand alone.  The other strings of the program (URLs, labels) are only
  stored, appended and tested for emptiness; they stay \<open>string\<close>.
\<close>

type_synonym codeUnits = "16 word list"

record timer =
  tid :: nat
  due :: nat
  arg :: codeUnits

datatype awaiting = FetchProducts | FetchMoreProducts

record request =
  rid :: nat
  url :: string
  signal :: "nat option"
  awaiting :: awaiting
  gen :: nat

text \<open>
  The state.  The first seven fields are the private fields of the class
  (\<open>shadow\<close> is \<open>None\<close> until \<open>render()\<close> has filled the shadow root; an object
  reference is the number of the object).  The others are the browser's side:
  the clock in milliseconds, the armed timers, the abort controllers whose \<open>abort()\<close>
  was called, the requests in flight, the observers that are observing (with their
  target), and the counters that number new objects.  \<open>generation\<close> is a history
  variable, the number of \<open>fetchProducts\<close> calls so far; the code never reads it.
\<close>

record state =
  products :: "Product list"
  loading :: bool
  nextPage :: "string option"
  observer :: "nat option"
  abortController :: "nat option"
  debounceTimer :: "nat option"
  shadow :: "dom option"
  clock :: nat
  timers :: "timer list"
  nextTimer :: nat
  aborted :: "nat set"
  nextCtl :: nat
  inflight :: "request list"
  nextReq :: nat
  observing :: "(nat \<times> nat) list"
  nextObs :: nat
  nextElem :: nat
  generation :: nat

definition init :: state where
  "init = \<lparr> products = [], loading = False, nextPage = None, observer = None,
            abortController = None, debounceTimer = None, shadow = None,
            clock = 0, timers = [], nextTimer = 1, aborted = {}, nextCtl = 0,
            inflight = [], nextReq = 0, observing = [], nextObs = 0, nextElem = 0,
            generation = 0 \<rparr>"

section \<open>JavaScript helpers\<close>

text \<open>Truthiness of a \<open>string | null\<close>: \<open>null\<close> and the empty string are falsy.\<close>

definition truthy :: "string option \<Rightarrow> bool" where
  "truthy v = (case v of None \<Rightarrow> False | Some u \<Rightarrow> u \<noteq> [])"

text \<open>
  \<open>encodeURIComponent\<close>, as ECMAScript defines it: an unreserved character stays; any
  other code point is written as the \<open>%XX\<close> escapes of its UTF-8 bytes, a leading
  surrogate followed by a trailing one being one code point; a surrogate that is not
  part of such a pair throws a \<open>URIError\<close>, which is the result \<open>None\<close>.
\<close>

definition unreserved :: "char \<Rightarrow> bool" where
  "unreserved c =
     (c \<in> set ''ABCDEFGHIJKLMNOPQRSTUVWXYZabcdefghijklmnopqrstuvwxyz0123456789-_.!~*()''
      \<or> c = CHR 0x27)"

definition unreservedUnit :: "16 word \<Rightarrow> bool" where
  "unreservedUnit c \<longleftrightarrow> uint c < 128 \<and> unreserved (char_of (uint c))"

definition isLead :: "16 word \<Rightarrow> bool" where
  "isLead c \<longleftrightarrow> 0xD800 \<le> uint c \<and> uint c \<le> 0xDBFF"

definition isTrail :: "16 word \<Rightarrow> bool" where
  "isTrail c \<longleftrightarrow> 0xDC00 \<le> uint c \<and> uint c \<le> 0xDFFF"

definition codePoint :: "16 word \<Rightarrow> 16 word \<Rightarrow> int" where
  "codePoint lead trail = (uint lead - 0xD800) * 0x400 + (uint trail - 0xDC00) + 0x10000"

definition utf8 :: "int \<Rightarrow> int list" where
  "utf8 cp =
     (if cp < 0x80 then [cp]
      else if cp < 0x800 then [0xC0 + cp div 64, 0x80 + cp mod 64]
      else if cp < 0x10000 then [0xE0 + cp div 4096, 0x80 + cp div 64 mod 64, 0x80 + cp mod 64]
      else [0xF0 + cp div 262144, 0x80 + cp div 4096 mod 64, 0x80 + cp div 64 mod 64,
            0x80 + cp mod 64])"

definition hexDigit :: "int \<Rightarrow> char" where
  "hexDigit n = (if n < 10 then char_of (48 + n) else char_of (55 + n))"

definition escape :: "int \<Rightarrow> string" where
  "escape cp = concat (map (\<lambda>b. [CHR ''%'', hexDigit (b div 16), hexDigit (b mod 16)]) (utf8 cp))"

fun encodeURIComponent :: "codeUnits \<Rightarrow> string option" where
  "encodeURIComponent [] = Some []"
| "encodeURIComponent (c # cs) =
     (if unreservedUnit c then map_option (\<lambda>r. char_of (uint c) # r) (encodeURIComponent cs)
      else if isTrail c then None
      else if isLead c then
        (case cs of
           [] \<Rightarrow> None
         | d # ds \<Rightarrow>
             if isTrail d then map_option (\<lambda>r. escape (codePoint c d) @ r) (encodeURIComponent ds)
             else None)
      else map_option (\<lambda>r. escape (uint c) @ r) (encodeURIComponent cs))"

section \<open>The methods of the widget\<close>

text \<open>\<open>render()\<close>: the shadow tree is rebuilt, with the loading indicator in the container.\<close>

definition render :: "state \<Rightarrow> state" where
  "render s = s\<lparr>shadow := Some \<lparr>suggested = False, children = [LoadingEl]\<rparr>\<rparr>"

definition updateLoadingState :: "state \<Rightarrow> state" where
  "updateLoadingState s =
     (case shadow s of
        None \<Rightarrow> s
      | Some d \<Rightarrow>
          if loading s then
            (if LoadingEl \<in> set (children d) then s
             else s\<lparr>shadow := Some (d\<lparr>children := children d @ [LoadingEl]\<rparr>)\<rparr>)
          else
            (if LoadingEl \<in> set (children d)
             then s\<lparr>shadow := Some (d\<lparr>children := remove1 LoadingEl (children d)\<rparr>)\<rparr>
             else s))"

text \<open>
  \<open>setupIntersectionObserver(target)\<close>: the previous observer, if any, is disconnected
  (it observes nothing any more), and a new observer observes the target.
\<close>

definition disconnect :: "nat \<Rightarrow> state \<Rightarrow> state" where
  "disconnect ob s = s\<lparr>observing := filter (\<lambda>p. fst p \<noteq> ob) (observing s)\<rparr>"

definition setupIntersectionObserver :: "nat \<Rightarrow> state \<Rightarrow> state" where
  "setupIntersectionObserver target s =
     (let s1 = (case observer s of Some ob \<Rightarrow> disconnect ob s | None \<Rightarrow> s)
      in s1\<lparr>observer := Some (nextObs s1),
            observing := observing s1 @ [(nextObs s1, target)],
            nextObs := Suc (nextObs s1)\<rparr>)"

text \<open>The item built for the product at \<open>index\<close> in the \<open>forEach\<close> of \<open>updateList\<close>.\<close>

definition suggestionItem :: "nat \<Rightarrow> Product \<Rightarrow> element" where
  "suggestionItem index product =
     SuggestionItem (index mod 2 = 1) (metadata product @ ''/html/'')
       (metadata product @ ''/html/'') (label product)"

definition suggestionItems :: "Product list \<Rightarrow> element list" where
  "suggestionItems ps = map (\<lambda>(index, product). suggestionItem index product) (enumerate 0 ps)"

definition updateList :: "state \<Rightarrow> state" where
  "updateList s =
     (case shadow s of
        None \<Rightarrow> s
      | Some d \<Rightarrow>
          let tail = (if loading s then [LoadingEl] else [])
          in if length (products s) > 0 then
               (if truthy (nextPage s) then
                  (let sentinel = nextElem s;
                       s1 = setupIntersectionObserver sentinel (s\<lparr>nextElem := Suc sentinel\<rparr>)
                   in s1\<lparr>shadow := Some \<lparr>suggested = True,
                            children = suggestionItems (products s) @ [Sentinel sentinel] @ tail\<rparr>\<rparr>)
                else s\<lparr>shadow := Some \<lparr>suggested = True,
                            children = suggestionItems (products s) @ tail\<rparr>\<rparr>)
             else if \<not> loading s then
               s\<lparr>shadow := Some \<lparr>suggested = True, children = [NoResults] @ tail\<rparr>\<rparr>
             else s\<lparr>shadow := Some (d\<lparr>children := tail\<rparr>)\<rparr>)"

text \<open>
  \<open>fetchProducts(term)\<close> up to its first \<open>await\<close>: the previous controller is aborted,
  a new one is made, the loading indicator is shown, and, inside the \<open>try\<close>, the URL
  is built and the request is handed to the browser with the new controller's signal.
  When \<open>encodeURIComponent\<close> throws, no request is made and the \<open>catch\<close> block
  runs with a \<open>URIError\<close>.  The \<open>catch\<close> block is the same for an error thrown
  before and after the \<open>await\<close>.
\<close>

definition baseUrl :: string where
  "baseUrl = ''https://sitn.ne.ch/geoshop2_api/product/''"

definition searchUrl :: "codeUnits \<Rightarrow> string option" where
  "searchUrl t =
     (if t \<noteq> [] then map_option (\<lambda>e. baseUrl @ ''?search='' @ e) (encodeURIComponent t)
      else Some baseUrl)"

definition abort :: "nat \<Rightarrow> state \<Rightarrow> state" where
  "abort c s = s\<lparr>aborted := insert c (aborted s)\<rparr>"

definition fetchProducts_catch :: "string \<Rightarrow> state \<Rightarrow> state" where
  "fetchProducts_catch name s =
     (if name = ''AbortError'' then s else updateList (s\<lparr>loading := False\<rparr>))"

definition fetchProducts :: "codeUnits \<Rightarrow> state \<Rightarrow> state" where
  "fetchProducts t s =
     (let s1 = (case abortController s of Some c \<Rightarrow> abort c s | None \<Rightarrow> s);
          c' = nextCtl s1;
          s2 = s1\<lparr>abortController := Some c', nextCtl := Suc c',
                  generation := Suc (generation s1)\<rparr>;
          s3 = updateLoadingState (s2\<lparr>loading := True\<rparr>)
      in case searchUrl t of
           None \<Rightarrow> fetchProducts_catch ''URIError'' s3
         | Some u \<Rightarrow>
             s3\<lparr>inflight := inflight s3 @
                  [\<lparr>rid = nextReq s3, url = u, signal = Some c',
                    awaiting = FetchProducts, gen = generation s3\<rparr>],
               nextReq := Suc (nextReq s3)\<rparr>)"

text \<open>
  How an awaited request settles: the response body, or the \<open>name\<close> of the error thrown
  into the \<open>catch\<close> block.
\<close>

datatype outcome = Fulfilled ApiResponse | Rejected string

definition fetchProducts_resume :: "outcome \<Rightarrow> state \<Rightarrow> state" where
  "fetchProducts_resume out s =
     (case out of
        Fulfilled data \<Rightarrow>
          updateList (s\<lparr>products := results data, nextPage := next data, loading := False\<rparr>)
      | Rejected name \<Rightarrow> fetchProducts_catch name s)"

definition fetchMoreProducts :: "state \<Rightarrow> state" where
  "fetchMoreProducts s =
     (if \<not> truthy (nextPage s) \<or> loading s then s
      else
        let s1 = updateLoadingState (s\<lparr>loading := True\<rparr>)
        in s1\<lparr>inflight := inflight s1 @
                 [\<lparr>rid = nextReq s1, url = the (nextPage s1), signal = None,
                   awaiting = FetchMoreProducts, gen = generation s1\<rparr>],
              nextReq := Suc (nextReq s1)\<rparr>)"

definition fetchMoreProducts_resume :: "outcome \<Rightarrow> state \<Rightarrow> state" where
  "fetchMoreProducts_resume out s =
     (case out of
        Fulfilled data \<Rightarrow>
          updateList (s\<lparr>products := products s @ results data, nextPage := next data,
                        loading := False\<rparr>)
      | Rejected name \<Rightarrow> updateList (s\<lparr>loading := False\<rparr>))"

text \<open>
  \<open>handleSearch(term)\<close>: the armed timer, if any, is cleared, and a new one is armed
  300 ms from now.  Its callback resets the list and starts the search.
\<close>

definition clearTimeout :: "nat \<Rightarrow> state \<Rightarrow> state" where
  "clearTimeout i s = s\<lparr>timers := filter (\<lambda>t. tid t \<noteq> i) (timers s)\<rparr>"

definition handleSearch :: "codeUnits \<Rightarrow> state \<Rightarrow> state" where
  "handleSearch t s =
     (let s1 = (case debounceTimer s of
                  Some i \<Rightarrow> if i \<noteq> 0 then clearTimeout i s else s
                | None \<Rightarrow> s)
      in s1\<lparr>debounceTimer := Some (nextTimer s1),
            timers := timers s1 @ [\<lparr>tid = nextTimer s1, due = clock s1 + 300, arg = t\<rparr>],
            nextTimer := Suc (nextTimer s1)\<rparr>)"

definition timerCallback :: "codeUnits \<Rightarrow> state \<Rightarrow> state" where
  "timerCallback t s = fetchProducts t (s\<lparr>products := [], nextPage := None\<rparr>)"

definition connectedCallback :: "state \<Rightarrow> state" where
  "connectedCallback s = fetchProducts [] (render s)"

definition disconnectedCallback :: "state \<Rightarrow> state" where
  "disconnectedCallback s = (case observer s of Some ob \<Rightarrow> disconnect ob s | None \<Rightarrow> s)"

text \<open>The callback of the intersection observer, given \<open>entries[0].isIntersecting\<close>.\<close>

definition observerCallback :: "bool \<Rightarrow> state \<Rightarrow> state" where
  "observerCallback isIntersecting s =
     (if isIntersecting \<and> truthy (nextPage s) \<and> \<not> loading s then fetchMoreProducts s else s)"

section \<open>The event loop\<close>

text \<open>
  What the server (or the transport) answers to a request.  A request whose signal was
  aborted settles with an \<open>AbortError\<close> whatever the answer; a status that is not ok
  throws an \<open>Error\<close>, a transport failure is a \<open>TypeError\<close>, a malformed body a
  \<open>SyntaxError\<close>.
\<close>

datatype reply = Ok200 ApiResponse | NotOk | TransportFailure | BadJson

definition settle :: "request \<Rightarrow> reply \<Rightarrow> state \<Rightarrow> outcome" where
  "settle r rep s =
     (if (case signal r of Some c \<Rightarrow> c \<in> aborted s | None \<Rightarrow> False) then Rejected ''AbortError''
      else case rep of
             Ok200 data \<Rightarrow> Fulfilled data
           | NotOk \<Rightarrow> Rejected ''Error''
           | TransportFailure \<Rightarrow> Rejected ''TypeError''
           | BadJson \<Rightarrow> Rejected ''SyntaxError'')"

definition respond :: "nat \<Rightarrow> reply \<Rightarrow> state \<Rightarrow> state" where
  "respond i rep s =
     (case find (\<lambda>r. rid r = i) (inflight s) of
        None \<Rightarrow> s
      | Some r \<Rightarrow>
          let s1 = s\<lparr>inflight := filter (\<lambda>r. rid r \<noteq> i) (inflight s)\<rparr>
          in case awaiting r of
               FetchProducts \<Rightarrow> fetchProducts_resume (settle r rep s) s1
             | FetchMoreProducts \<Rightarrow> fetchMoreProducts_resume (settle r rep s) s1)"

text \<open>
  Time passes: the timers that are due fire, in the order they were armed.
\<close>

definition elapse :: "nat \<Rightarrow> state \<Rightarrow> state" where
  "elapse d s =
     (let now = clock s + d;
          fired = filter (\<lambda>t. due t \<le> now) (timers s);
          s1 = s\<lparr>clock := now, timers := filter (\<lambda>t. \<not> due t \<le> now) (timers s)\<rparr>
      in fold (\<lambda>t. timerCallback (arg t)) fired s1)"

text \<open>
  The events the widget reacts to.  The listeners exist once \<open>setupEventListeners\<close>
  has found the input, that is once the shadow tree is rendered; the clear button
  empties the input and searches for the empty term.  An observer calls back only
  while it observes.
\<close>

datatype event =
    Connect
  | Disconnect
  | Input codeUnits
  | ClearClick
  | Elapse nat
  | Response nat reply
  | Intersect nat bool

fun step :: "event \<Rightarrow> state \<Rightarrow> state" where
  "step Connect s = connectedCallback s"
| "step Disconnect s = disconnectedCallback s"
| "step (Input t) s = (if shadow s = None then s else handleSearch t s)"
| "step ClearClick s = (if shadow s = None then s else handleSearch [] s)"
| "step (Elapse d) s = elapse d s"
| "step (Response i rep) s = respond i rep s"
| "step (Intersect ob b) s = (if ob \<in> fst ` set (observing s) then observerCallback b s else s)"

definition run :: "event list \<Rightarrow> state \<Rightarrow> state" where
  "run es s = fold step es s"

section \<open>Invariants of the event loop\<close>

text \<open>
  At most one timer is armed, and it is the one \<open>debounceTimer\<close> names; timer
  handles are positive.
\<close>

definition timers_ok :: "state \<Rightarrow> bool" where
  "timers_ok s \<longleftrightarrow>
     nextTimer s \<noteq> 0 \<and> length (timers s) \<le> 1 \<and>
     (\<forall>t \<in> set (timers s). debounceTimer s = Some (tid t) \<and> tid t \<noteq> 0)"

text \<open>At most one observer observes, and it is the one the field \<open>observer\<close> holds.\<close>

definition observers_ok :: "state \<Rightarrow> bool" where
  "observers_ok s \<longleftrightarrow>
     length (observing s) \<le> 1 \<and> (\<forall>p \<in> set (observing s). observer s = Some (fst p))"

text \<open>
  A request in flight: a fresh search carries the signal of the controller made for it,
  which is aborted exactly when a later \<open>fetchProducts\<close> has run, and while it is
  the latest its controller is the one in \<open>abortController\<close>; a continuation carries
  no signal.
\<close>

definition request_ok :: "state \<Rightarrow> request \<Rightarrow> bool" where
  "request_ok s r \<longleftrightarrow>
     rid r < nextReq s \<and> gen r \<le> generation s \<and>
     (case awaiting r of
        FetchMoreProducts \<Rightarrow> signal r = None
      | FetchProducts \<Rightarrow>
          (case signal r of
             None \<Rightarrow> False
           | Some c \<Rightarrow>
               if gen r = generation s then abortController s = Some c \<and> c \<notin> aborted s
               else c \<in> aborted s))"

definition requests_ok :: "state \<Rightarrow> bool" where
  "requests_ok s \<longleftrightarrow>
     (\<forall>c \<in> aborted s. c < nextCtl s) \<and>
     (\<forall>c. abortController s = Some c \<longrightarrow> c < nextCtl s) \<and>
     (\<forall>r \<in> set (inflight s). request_ok s r)"

text \<open>The debounce that waits for the term \<open>t\<close>, armed just now.\<close>

definition pending :: "codeUnits \<Rightarrow> state \<Rightarrow> bool" where
  "pending t s \<longleftrightarrow>
     timers_ok s \<and> shadow s \<noteq> None \<and>
     (\<exists>i. timers s = [\<lparr>tid = i, due = clock s + 300, arg = t\<rparr>])"

section \<open>Vocabulary of the claims\<close>

text \<open>
  A term that holds a surrogate outside a pair of a leading and a trailing one: the
  terms \<open>encodeURIComponent\<close> refuses.
\<close>

fun unpairedSurrogate :: "codeUnits \<Rightarrow> bool" where
  "unpairedSurrogate [] = False"
| "unpairedSurrogate [c] = (isLead c \<or> isTrail c)"
| "unpairedSurrogate (c # d # ds) =
     (if isLead c then \<not> isTrail d \<or> unpairedSurrogate ds
      else isTrail c \<or> unpairedSurrogate (d # ds))"

text \<open>A reply that makes the request fail: anything but a page.\<close>

definition failed :: "reply \<Rightarrow> bool" where
  "failed rep = (case rep of Ok200 data \<Rightarrow> False | _ \<Rightarrow> True)"

text \<open>
  Typing \<open>t\<close> and then each term of \<open>rest\<close>, every one \<open>g\<close> milliseconds after
  the one before.
\<close>

definition burst :: "codeUnits \<Rightarrow> (nat \<times> codeUnits) list \<Rightarrow> event list" where
  "burst t rest = Input t # concat (map (\<lambda>(g, t'). [Elapse g, Input t']) rest)"

section \<open>Example data and runs\<close>

text \<open>
  Three products, a page of them, and the runs used as concrete inputs below (the terms
  typed are \<open>x\<close>, code unit 0x78, and \<open>xy\<close>): the first
  page shown; the sentinel seen, with a continuation in flight; a term typed and its
  debounce fired while the initial search is in flight; the widget attached again; a
  search answered while a continuation of the search before is in flight; the widget
  detached with a search in flight and a debounce armed.
\<close>

definition productA :: Product where
  "productA = \<lparr>label = ''A'', metadata = ''https://m/a''\<rparr>"
definition productB :: Product where
  "productB = \<lparr>label = ''B'', metadata = ''https://m/b''\<rparr>"
definition productX :: Product where
  "productX = \<lparr>label = ''X'', metadata = ''https://m/x''\<rparr>"

definition page :: "Product list \<Rightarrow> string option \<Rightarrow> ApiResponse" where
  "page ps n = \<lparr>count = int (length ps), next = n, previous = None, results = ps\<rparr>"

definition firstPage :: "event list" where
  "firstPage = [Connect, Response 0 (Ok200 (page [productA] (Some ''https://m/page2'')))]"

definition scrolling :: "event list" where
  "scrolling = firstPage @ [Intersect 0 True]"

definition retyped :: "event list" where
  "retyped = [Connect, Input [0x78], Elapse 300]"

definition reattached :: "event list" where
  "reattached = [Connect, Response 0 (Ok200 (page [productA] None)), Disconnect, Connect]"

definition staleMerge :: "event list" where
  "staleMerge = scrolling @ [Input [0x78], Elapse 300, Response 2 (Ok200 (page [productX] None))]"

definition detached :: "event list" where
  "detached = firstPage @ [Input [0x78], Elapse 300, Input [0x78, 0x79], Disconnect]"

section \<open>What each method leaves unchanged\<close>

lemma updateLoadingState_frame [simp]:
  "products (updateLoadingState s) = products s"
  "loading (updateLoadingState s) = loading s"
  "nextPage (updateLoadingState s) = nextPage s"
  "observer (updateLoadingState s) = observer s"
  "abortController (updateLoadingState s) = abortController s"
  "debounceTimer (updateLoadingState s) = debounceTimer s"
  "clock (updateLoadingState s) = clock s"
  "timers (updateLoadingState s) = timers s"
  "nextTimer (updateLoadingState s) = nextTimer s"
  "aborted (updateLoadingState s) = aborted s"
  "nextCtl (updateLoadingState s) = nextCtl s"
  "inflight (updateLoadingState s) = inflight s"
  "nextReq (updateLoadingState s) = nextReq s"
  "observing (updateLoadingState s) = observing s"
  "nextObs (updateLoadingState s) = nextObs s"
  "nextElem (updateLoadingState s) = nextElem s"
  "generation (updateLoadingState s) = generation s"
  by (simp_all add: updateLoadingState_def split: option.splits)

lemma updateList_frame [simp]:
  "products (updateList s) = products s"
  "loading (updateList s) = loading s"
  "nextPage (updateList s) = nextPage s"
  "abortController (updateList s) = abortController s"
  "debounceTimer (updateList s) = debounceTimer s"
  "clock (updateList s) = clock s"
  "timers (updateList s) = timers s"
  "nextTimer (updateList s) = nextTimer s"
  "aborted (updateList s) = aborted s"
  "nextCtl (updateList s) = nextCtl s"
  "inflight (updateList s) = inflight s"
  "nextReq (updateList s) = nextReq s"
  "generation (updateList s) = generation s"
  by (simp_all add: updateList_def setupIntersectionObserver_def disconnect_def Let_def
        split: option.splits)

lemma fetchProducts_catch_frame [simp]:
  "products (fetchProducts_catch name s) = products s"
  "nextPage (fetchProducts_catch name s) = nextPage s"
  "abortController (fetchProducts_catch name s) = abortController s"
  "debounceTimer (fetchProducts_catch name s) = debounceTimer s"
  "clock (fetchProducts_catch name s) = clock s"
  "timers (fetchProducts_catch name s) = timers s"
  "nextTimer (fetchProducts_catch name s) = nextTimer s"
  "aborted (fetchProducts_catch name s) = aborted s"
  "nextCtl (fetchProducts_catch name s) = nextCtl s"
  "inflight (fetchProducts_catch name s) = inflight s"
  "nextReq (fetchProducts_catch name s) = nextReq s"
  "generation (fetchProducts_catch name s) = generation s"
  by (simp_all add: fetchProducts_catch_def)

lemma fetchProducts_frame [simp]:
  "products (fetchProducts t s) = products s"
  "nextPage (fetchProducts t s) = nextPage s"
  "debounceTimer (fetchProducts t s) = debounceTimer s"
  "clock (fetchProducts t s) = clock s"
  "timers (fetchProducts t s) = timers s"
  "nextTimer (fetchProducts t s) = nextTimer s"
  "generation (fetchProducts t s) = Suc (generation s)"
  "nextCtl (fetchProducts t s) = Suc (nextCtl s)"
  "abortController (fetchProducts t s) = Some (nextCtl s)"
  by (simp_all add: fetchProducts_def abort_def Let_def split: option.splits)

lemma fetchProducts_aborted:
  "aborted (fetchProducts t s) =
     (case abortController s of Some c \<Rightarrow> insert c (aborted s) | None \<Rightarrow> aborted s)"
  by (simp add: fetchProducts_def abort_def Let_def split: option.splits)

lemma fetchProducts_issued:
  assumes "searchUrl t = Some u"
  shows "inflight (fetchProducts t s) = inflight s @
           [\<lparr>rid = nextReq s, url = u, signal = Some (nextCtl s),
             awaiting = FetchProducts, gen = Suc (generation s)\<rparr>]"
    and "nextReq (fetchProducts t s) = Suc (nextReq s)"
    and "loading (fetchProducts t s)"
    and "observer (fetchProducts t s) = observer s"
    and "observing (fetchProducts t s) = observing s"
  using assms by (simp_all add: fetchProducts_def abort_def Let_def split: option.splits)

lemma fetchProducts_refused:
  assumes "searchUrl t = None"
  shows "inflight (fetchProducts t s) = inflight s"
    and "nextReq (fetchProducts t s) = nextReq s"
    and "\<not> loading (fetchProducts t s)"
  using assms
  by (simp_all add: fetchProducts_def fetchProducts_catch_def abort_def Let_def split: option.splits)

lemma fetchMoreProducts_frame [simp]:
  "products (fetchMoreProducts s) = products s"
  "nextPage (fetchMoreProducts s) = nextPage s"
  "observer (fetchMoreProducts s) = observer s"
  "abortController (fetchMoreProducts s) = abortController s"
  "debounceTimer (fetchMoreProducts s) = debounceTimer s"
  "clock (fetchMoreProducts s) = clock s"
  "timers (fetchMoreProducts s) = timers s"
  "nextTimer (fetchMoreProducts s) = nextTimer s"
  "aborted (fetchMoreProducts s) = aborted s"
  "nextCtl (fetchMoreProducts s) = nextCtl s"
  "observing (fetchMoreProducts s) = observing s"
  "nextObs (fetchMoreProducts s) = nextObs s"
  "nextElem (fetchMoreProducts s) = nextElem s"
  "generation (fetchMoreProducts s) = generation s"
  by (simp_all add: fetchMoreProducts_def Let_def)

lemma fetchMoreProducts_issue:
  "truthy (nextPage s) \<Longrightarrow> \<not> loading s \<Longrightarrow>
   inflight (fetchMoreProducts s) = inflight s @
     [\<lparr>rid = nextReq s, url = the (nextPage s), signal = None,
       awaiting = FetchMoreProducts, gen = generation s\<rparr>] \<and>
   nextReq (fetchMoreProducts s) = Suc (nextReq s) \<and> loading (fetchMoreProducts s)"
  by (simp add: fetchMoreProducts_def Let_def)

lemma fetchMoreProducts_skip:
  "\<not> truthy (nextPage s) \<or> loading s \<Longrightarrow> fetchMoreProducts s = s"
  by (simp add: fetchMoreProducts_def)

lemma resume_frame [simp]:
  "abortController (fetchProducts_resume out s) = abortController s"
  "debounceTimer (fetchProducts_resume out s) = debounceTimer s"
  "clock (fetchProducts_resume out s) = clock s"
  "timers (fetchProducts_resume out s) = timers s"
  "nextTimer (fetchProducts_resume out s) = nextTimer s"
  "aborted (fetchProducts_resume out s) = aborted s"
  "nextCtl (fetchProducts_resume out s) = nextCtl s"
  "inflight (fetchProducts_resume out s) = inflight s"
  "nextReq (fetchProducts_resume out s) = nextReq s"
  "generation (fetchProducts_resume out s) = generation s"
  "abortController (fetchMoreProducts_resume out s) = abortController s"
  "debounceTimer (fetchMoreProducts_resume out s) = debounceTimer s"
  "clock (fetchMoreProducts_resume out s) = clock s"
  "timers (fetchMoreProducts_resume out s) = timers s"
  "nextTimer (fetchMoreProducts_resume out s) = nextTimer s"
  "aborted (fetchMoreProducts_resume out s) = aborted s"
  "nextCtl (fetchMoreProducts_resume out s) = nextCtl s"
  "inflight (fetchMoreProducts_resume out s) = inflight s"
  "nextReq (fetchMoreProducts_resume out s) = nextReq s"
  "generation (fetchMoreProducts_resume out s) = generation s"
  by (simp_all add: fetchProducts_resume_def fetchMoreProducts_resume_def split: outcome.splits)

lemma respond_frame [simp]:
  "abortController (respond i rep s) = abortController s"
  "debounceTimer (respond i rep s) = debounceTimer s"
  "clock (respond i rep s) = clock s"
  "timers (respond i rep s) = timers s"
  "nextTimer (respond i rep s) = nextTimer s"
  "aborted (respond i rep s) = aborted s"
  "nextCtl (respond i rep s) = nextCtl s"
  "nextReq (respond i rep s) = nextReq s"
  "generation (respond i rep s) = generation s"
  by (simp_all add: respond_def Let_def split: option.splits awaiting.splits)

lemma respond_inflight:
  "inflight (respond i rep s) =
     (case find (\<lambda>r. rid r = i) (inflight s) of
        None \<Rightarrow> inflight s | Some r \<Rightarrow> filter (\<lambda>r. rid r \<noteq> i) (inflight s))"
  by (simp add: respond_def Let_def split: option.splits awaiting.splits)

lemma handleSearch_frame [simp]:
  "products (handleSearch t s) = products s"
  "loading (handleSearch t s) = loading s"
  "nextPage (handleSearch t s) = nextPage s"
  "observer (handleSearch t s) = observer s"
  "abortController (handleSearch t s) = abortController s"
  "shadow (handleSearch t s) = shadow s"
  "clock (handleSearch t s) = clock s"
  "aborted (handleSearch t s) = aborted s"
  "nextCtl (handleSearch t s) = nextCtl s"
  "inflight (handleSearch t s) = inflight s"
  "nextReq (handleSearch t s) = nextReq s"
  "observing (handleSearch t s) = observing s"
  "nextObs (handleSearch t s) = nextObs s"
  "nextElem (handleSearch t s) = nextElem s"
  "generation (handleSearch t s) = generation s"
  by (simp_all add: handleSearch_def clearTimeout_def Let_def split: option.splits)

subsection \<open>Observers\<close>

lemma observers_ok_setup:
  "observers_ok s \<Longrightarrow>
   observing (setupIntersectionObserver tg s) = [(nextObs s, tg)] \<and>
   observer (setupIntersectionObserver tg s) = Some (nextObs s)"
  by (cases "observing s")
     (auto simp: observers_ok_def setupIntersectionObserver_def disconnect_def Let_def
           split: option.splits)

lemma observers_ok_updateList: "observers_ok s \<Longrightarrow> observers_ok (updateList s)"
  using observers_ok_setup [of "s\<lparr>nextElem := Suc (nextElem s)\<rparr>" "nextElem s"]
  by (auto simp: updateList_def Let_def observers_ok_def split: option.splits)


lemma fold_timerCallback:
  assumes "\<And>t s. P s \<Longrightarrow> P (timerCallback t s)" and "P s"
  shows "P (fold (\<lambda>t. timerCallback (arg t)) ts s)"
  using assms(2) by (induction ts arbitrary: s) (simp_all add: assms(1))

lemma observers_ok_cong:
  "observing s' = observing s \<Longrightarrow> observer s' = observer s \<Longrightarrow> observers_ok s' = observers_ok s"
  by (simp add: observers_ok_def)

lemma observers_ok_catch: "observers_ok s \<Longrightarrow> observers_ok (fetchProducts_catch name s)"
proof -
  assume "observers_ok s"
  then have "observers_ok (s\<lparr>loading := False\<rparr>)" by (simp add: observers_ok_def)
  then have "observers_ok (updateList (s\<lparr>loading := False\<rparr>))" by (rule observers_ok_updateList)
  with \<open>observers_ok s\<close> show ?thesis by (simp add: fetchProducts_catch_def)
qed

lemma observers_ok_fetchProducts:
  assumes "observers_ok s"
  shows "observers_ok (fetchProducts t s)"
proof (cases "searchUrl t")
  case (Some u)
  have "observers_ok (fetchProducts t s) = observers_ok s"
    by (rule observers_ok_cong) (simp_all add: fetchProducts_issued [OF Some])
  with assms show ?thesis by simp
next
  case None
  let ?s3 = "updateLoadingState
     ((case abortController s of Some c \<Rightarrow> abort c s | None \<Rightarrow> s)
        \<lparr>abortController := Some (nextCtl s), nextCtl := Suc (nextCtl s),
          generation := Suc (generation s), loading := True\<rparr>)"
  have eq: "fetchProducts t s = fetchProducts_catch ''URIError'' ?s3"
    using None by (simp add: fetchProducts_def abort_def Let_def split: option.splits)
  have "observers_ok ?s3 = observers_ok s"
    by (rule observers_ok_cong) (simp_all add: abort_def split: option.splits)
  with assms show ?thesis unfolding eq by (intro observers_ok_catch) simp
qed

lemma observers_ok_timerCallback:
  assumes "observers_ok s"
  shows "observers_ok (timerCallback t s)"
proof -
  from assms have "observers_ok (s\<lparr>products := [], nextPage := None\<rparr>)"
    by (simp add: observers_ok_def)
  then show ?thesis unfolding timerCallback_def by (rule observers_ok_fetchProducts)
qed

lemma observers_ok_elapse: "observers_ok s \<Longrightarrow> observers_ok (elapse d s)"
  unfolding elapse_def Let_def
  by (rule fold_timerCallback) (simp_all add: observers_ok_timerCallback, simp add: observers_ok_def)

lemma observers_ok_resume:
  "observers_ok s \<Longrightarrow> observers_ok (fetchProducts_resume out s)"
  "observers_ok s \<Longrightarrow> observers_ok (fetchMoreProducts_resume out s)"
  by (auto simp: fetchProducts_resume_def fetchMoreProducts_resume_def
           intro!: observers_ok_updateList observers_ok_catch split: outcome.splits)
     (simp_all add: observers_ok_def)

lemma observers_ok_respond: "observers_ok s \<Longrightarrow> observers_ok (respond i rep s)"
  by (auto simp: respond_def Let_def intro!: observers_ok_resume split: option.splits awaiting.splits)
     (simp_all add: observers_ok_def)

lemma observers_ok_disconnected: "observers_ok s \<Longrightarrow> observing (disconnectedCallback s) = []"
  by (cases "observing s")
     (auto simp: observers_ok_def disconnectedCallback_def disconnect_def split: option.splits)

lemma observers_ok_step: "observers_ok s \<Longrightarrow> observers_ok (step e s)"
proof (cases e)
  case Connect
  assume "observers_ok s"
  then have "observers_ok (render s)" by (simp add: observers_ok_def render_def)
  then show ?thesis
    by (simp add: Connect connectedCallback_def observers_ok_fetchProducts)
next
  case Disconnect
  assume "observers_ok s"
  then show ?thesis
    using observers_ok_disconnected [of s] by (simp add: Disconnect observers_ok_def)
next
  case (Input t)
  assume "observers_ok s"
  then show ?thesis by (simp add: Input observers_ok_def)
next
  case ClearClick
  assume "observers_ok s"
  then show ?thesis by (simp add: ClearClick observers_ok_def)
next
  case (Elapse d)
  assume "observers_ok s"
  then show ?thesis by (simp add: Elapse observers_ok_elapse)
next
  case (Response i rep)
  assume "observers_ok s"
  then show ?thesis by (simp add: Response observers_ok_respond)
next
  case (Intersect ob b)
  assume "observers_ok s"
  then show ?thesis by (simp add: Intersect observerCallback_def observers_ok_def)
qed


subsection \<open>Timers\<close>

lemma timerCallback_frame [simp]:
  "debounceTimer (timerCallback t s) = debounceTimer s"
  "clock (timerCallback t s) = clock s"
  "timers (timerCallback t s) = timers s"
  "nextTimer (timerCallback t s) = nextTimer s"
  by (simp_all add: timerCallback_def)

lemma elapse_frame [simp]:
  "debounceTimer (elapse d s) = debounceTimer s"
  "nextTimer (elapse d s) = nextTimer s"
  "clock (elapse d s) = clock s + d"
  "timers (elapse d s) = filter (\<lambda>t. \<not> due t \<le> clock s + d) (timers s)"
  unfolding elapse_def Let_def
  by (rule fold_timerCallback; simp)+

lemma handleSearch_timers:
  assumes "timers_ok s"
  shows "timers (handleSearch t s) = [\<lparr>tid = nextTimer s, due = clock s + 300, arg = t\<rparr>]"
    and "debounceTimer (handleSearch t s) = Some (nextTimer s)"
    and "nextTimer (handleSearch t s) = Suc (nextTimer s)"
proof -
  have "filter (\<lambda>x. tid x \<noteq> i) (timers s) = []" if "debounceTimer s = Some i" for i
    using assms that by (auto simp: timers_ok_def filter_empty_conv)
  moreover have "timers s = []" if "debounceTimer s = None \<or> debounceTimer s = Some 0"
    using assms that by (cases "timers s") (auto simp: timers_ok_def)
  ultimately show "timers (handleSearch t s) = [\<lparr>tid = nextTimer s, due = clock s + 300, arg = t\<rparr>]"
    by (auto simp: handleSearch_def clearTimeout_def Let_def split: option.splits)
  show "debounceTimer (handleSearch t s) = Some (nextTimer s)"
    and "nextTimer (handleSearch t s) = Suc (nextTimer s)"
    by (simp_all add: handleSearch_def clearTimeout_def Let_def split: option.splits)
qed

lemma timers_ok_cong:
  "timers s' = timers s \<Longrightarrow> nextTimer s' = nextTimer s \<Longrightarrow> debounceTimer s' = debounceTimer s
   \<Longrightarrow> timers_ok s' = timers_ok s"
  by (simp add: timers_ok_def)

lemma timers_ok_handleSearch: "timers_ok s \<Longrightarrow> timers_ok (handleSearch t s)"
  using handleSearch_timers [of s t] by (simp add: timers_ok_def)

lemma timers_ok_elapse: "timers_ok s \<Longrightarrow> timers_ok (elapse d s)"
  by (auto simp: timers_ok_def intro: le_trans [OF length_filter_le])

lemma timers_ok_step: "timers_ok s \<Longrightarrow> timers_ok (step e s)"
proof (cases e)
  case Connect
  assume "timers_ok s"
  then show ?thesis by (simp add: Connect connectedCallback_def timers_ok_def render_def)
next
  case Disconnect
  assume "timers_ok s"
  then show ?thesis
    by (simp add: Disconnect disconnectedCallback_def disconnect_def timers_ok_def
             split: option.splits)
next
  case (Input t)
  assume "timers_ok s"
  then show ?thesis by (simp add: Input timers_ok_handleSearch)
next
  case ClearClick
  assume "timers_ok s"
  then show ?thesis by (simp add: ClearClick timers_ok_handleSearch)
next
  case (Elapse d)
  assume "timers_ok s"
  then show ?thesis by (simp add: Elapse timers_ok_elapse)
next
  case (Response i rep)
  assume "timers_ok s"
  then show ?thesis by (simp add: Response timers_ok_def)
next
  case (Intersect ob b)
  assume "timers_ok s"
  then show ?thesis by (simp add: Intersect observerCallback_def timers_ok_def)
qed

subsection \<open>Requests\<close>

lemma request_ok_cong:
  "aborted s' = aborted s \<Longrightarrow> abortController s' = abortController s
   \<Longrightarrow> nextReq s' = nextReq s \<Longrightarrow> generation s' = generation s
   \<Longrightarrow> request_ok s' r = request_ok s r"
  by (simp add: request_ok_def split: awaiting.splits option.splits)

lemma requests_ok_cong:
  "aborted s' = aborted s \<Longrightarrow> nextCtl s' = nextCtl s \<Longrightarrow> abortController s' = abortController s
   \<Longrightarrow> inflight s' = inflight s \<Longrightarrow> nextReq s' = nextReq s \<Longrightarrow> generation s' = generation s
   \<Longrightarrow> requests_ok s' = requests_ok s"
  by (simp add: requests_ok_def request_ok_cong [of s' s])

lemma nextReq_fetchProducts: "nextReq s \<le> nextReq (fetchProducts t s)"
  by (cases "searchUrl t") (simp_all add: fetchProducts_refused fetchProducts_issued)

lemma request_ok_fetchProducts_old:
  assumes "requests_ok s" and "r \<in> set (inflight s)"
  shows "request_ok (fetchProducts t s) r"
proof -
  from assms have r: "request_ok s r" by (simp add: requests_ok_def)
  then have "rid r < nextReq s" by (simp add: request_ok_def)
  then have rid: "rid r < nextReq (fetchProducts t s)"
    using nextReq_fetchProducts [of s t] by simp
  show ?thesis
  proof (cases "awaiting r")
    case FetchMoreProducts
    with r rid show ?thesis by (simp add: request_ok_def)
  next
    case FetchProducts
    with r obtain c where c: "signal r = Some c" by (auto simp: request_ok_def split: option.splits)
    from r have le: "gen r \<le> generation s" by (simp add: request_ok_def)
    show ?thesis
    proof (cases "gen r = generation s")
      case True
      with r FetchProducts c have "abortController s = Some c" by (simp add: request_ok_def)
      with rid FetchProducts c True show ?thesis
        by (simp add: request_ok_def fetchProducts_aborted)
    next
      case False
      with r FetchProducts c have "c \<in> aborted s" by (simp add: request_ok_def)
      with rid FetchProducts c le show ?thesis
        by (simp add: request_ok_def fetchProducts_aborted split: option.splits)
    qed
  qed
qed

lemma request_ok_fetchProducts_new:
  assumes "requests_ok s" and "searchUrl t = Some u"
  shows "request_ok (fetchProducts t s)
           \<lparr>rid = nextReq s, url = u, signal = Some (nextCtl s),
             awaiting = FetchProducts, gen = Suc (generation s)\<rparr>"
proof -
  have "nextCtl s \<notin> aborted s" using assms(1) by (auto simp: requests_ok_def)
  moreover have "abortController s \<noteq> Some (nextCtl s)" using assms(1) by (auto simp: requests_ok_def)
  ultimately show ?thesis
    by (auto simp: request_ok_def fetchProducts_aborted fetchProducts_issued [OF assms(2)]
             split: option.splits)
qed

lemma requests_ok_fetchProducts:
  assumes "requests_ok s"
  shows "requests_ok (fetchProducts t s)"
  unfolding requests_ok_def
proof (intro conjI ballI allI impI)
  fix c assume "c \<in> aborted (fetchProducts t s)"
  then show "c < nextCtl (fetchProducts t s)"
    using assms by (auto simp: fetchProducts_aborted requests_ok_def less_Suc_eq split: option.splits)
next
  fix c assume "abortController (fetchProducts t s) = Some c"
  then show "c < nextCtl (fetchProducts t s)" by simp
next
  fix r assume r: "r \<in> set (inflight (fetchProducts t s))"
  show "request_ok (fetchProducts t s) r"
  proof (cases "searchUrl t")
    case None
    with r have "r \<in> set (inflight s)" by (simp add: fetchProducts_refused)
    then show ?thesis by (rule request_ok_fetchProducts_old [OF assms])
  next
    case (Some u)
    with r show ?thesis
      using request_ok_fetchProducts_old [OF assms] request_ok_fetchProducts_new [OF assms Some]
      by (auto simp: fetchProducts_issued [OF Some])
  qed
qed

lemma requests_ok_fetchMoreProducts:
  assumes "requests_ok s"
  shows "requests_ok (fetchMoreProducts s)"
proof (cases "\<not> truthy (nextPage s) \<or> loading s")
  case True
  then show ?thesis using assms by (simp add: fetchMoreProducts_skip)
next
  case False
  then have inf: "inflight (fetchMoreProducts s) = inflight s @
     [\<lparr>rid = nextReq s, url = the (nextPage s), signal = None,
       awaiting = FetchMoreProducts, gen = generation s\<rparr>]"
    and nxt: "nextReq (fetchMoreProducts s) = Suc (nextReq s)"
    using fetchMoreProducts_issue [of s] by simp_all
  have old: "request_ok (fetchMoreProducts s) r" if "r \<in> set (inflight s)" for r
  proof -
    from assms that have "request_ok s r" by (simp add: requests_ok_def)
    then show ?thesis
      by (simp add: request_ok_def nxt less_Suc_eq split: awaiting.splits option.splits)
  qed
  have new: "request_ok (fetchMoreProducts s)
     \<lparr>rid = nextReq s, url = the (nextPage s), signal = None,
       awaiting = FetchMoreProducts, gen = generation s\<rparr>"
    by (simp add: request_ok_def nxt)
  show ?thesis
    using assms old new by (auto simp: requests_ok_def inf)
qed

lemma requests_ok_respond:
  assumes "requests_ok s"
  shows "requests_ok (respond i rep s)"
proof -
  have "request_ok (respond i rep s) r = request_ok s r" for r
    by (rule request_ok_cong) simp_all
  moreover have "set (inflight (respond i rep s)) \<subseteq> set (inflight s)"
    by (auto simp: respond_inflight split: option.splits)
  ultimately show ?thesis
    using assms by (auto simp: requests_ok_def)
qed

lemma requests_ok_timerCallback:
  assumes "requests_ok s"
  shows "requests_ok (timerCallback t s)"
proof -
  have "requests_ok (s\<lparr>products := [], nextPage := None\<rparr>) = requests_ok s"
    by (rule requests_ok_cong) simp_all
  with assms show ?thesis
    by (simp add: timerCallback_def requests_ok_fetchProducts)
qed

lemma requests_ok_elapse:
  assumes "requests_ok s"
  shows "requests_ok (elapse d s)"
  unfolding elapse_def Let_def
proof (rule fold_timerCallback)
  have "requests_ok (s\<lparr>clock := clock s + d,
          timers := filter (\<lambda>t. \<not> due t \<le> clock s + d) (timers s)\<rparr>) = requests_ok s"
    by (rule requests_ok_cong) simp_all
  with assms show "requests_ok (s\<lparr>clock := clock s + d,
          timers := filter (\<lambda>t. \<not> due t \<le> clock s + d) (timers s)\<rparr>)"
    by simp
qed (rule requests_ok_timerCallback)

lemma requests_ok_step:
  assumes "requests_ok s"
  shows "requests_ok (step e s)"
proof (cases e)
  case Connect
  have "requests_ok (render s) = requests_ok s"
    by (rule requests_ok_cong) (simp_all add: render_def)
  with assms show ?thesis by (simp add: Connect connectedCallback_def requests_ok_fetchProducts)
next
  case Disconnect
  have "requests_ok (disconnectedCallback s) = requests_ok s"
    by (rule requests_ok_cong)
       (simp_all add: disconnectedCallback_def disconnect_def split: option.splits)
  with assms show ?thesis by (simp add: Disconnect)
next
  case (Input t)
  have "requests_ok (handleSearch t s) = requests_ok s"
    by (rule requests_ok_cong) simp_all
  with assms show ?thesis by (simp add: Input)
next
  case ClearClick
  have "requests_ok (handleSearch [] s) = requests_ok s"
    by (rule requests_ok_cong) simp_all
  with assms show ?thesis by (simp add: ClearClick)
next
  case (Elapse d)
  with assms show ?thesis by (simp add: requests_ok_elapse)
next
  case (Response i rep)
  with assms show ?thesis by (simp add: requests_ok_respond)
next
  case (Intersect ob b)
  with assms show ?thesis by (simp add: observerCallback_def requests_ok_fetchMoreProducts)
qed

subsection \<open>Every reachable state\<close>

lemma init_ok: "timers_ok init" "observers_ok init" "requests_ok init"
  by (simp_all add: init_def timers_ok_def observers_ok_def requests_ok_def)

lemma run_ok:
  assumes "timers_ok s" "observers_ok s" "requests_ok s"
  shows "timers_ok (run es s) \<and> observers_ok (run es s) \<and> requests_ok (run es s)"
  using assms unfolding run_def
  by (induction es arbitrary: s) (simp_all add: timers_ok_step observers_ok_step requests_ok_step)

lemmas reachable_ok = run_ok [OF init_ok]

section \<open>Responses, timers and rendering\<close>

lemma respond_more:
  assumes "find (\<lambda>r. rid r = i) (inflight s) = Some r" "awaiting r = FetchMoreProducts"
  shows "respond i rep s =
     fetchMoreProducts_resume (settle r rep s) (s\<lparr>inflight := filter (\<lambda>r. rid r \<noteq> i) (inflight s)\<rparr>)"
  using assms by (simp add: respond_def)

lemma respond_fresh:
  assumes "find (\<lambda>r. rid r = i) (inflight s) = Some r" "awaiting r = FetchProducts"
  shows "respond i rep s =
     fetchProducts_resume (settle r rep s) (s\<lparr>inflight := filter (\<lambda>r. rid r \<noteq> i) (inflight s)\<rparr>)"
  using assms by (simp add: respond_def)

lemma find_inflight:
  "find P xs = Some r \<Longrightarrow> r \<in> set xs"
  by (auto simp: find_Some_iff)

lemma reachable_request:
  assumes "find (\<lambda>r. rid r = i) (inflight (run es init)) = Some r"
  shows "request_ok (run es init) r"
  using reachable_ok [of es] find_inflight [OF assms] by (simp add: requests_ok_def)

lemma suggestionItems_links:
  "map (\<lambda>e. (onclick e, href e)) (suggestionItems ps) =
   map (\<lambda>p. (metadata p @ ''/html/'', metadata p @ ''/html/'')) ps"
proof -
  have "map (\<lambda>e. (onclick e, href e)) (map (\<lambda>(index, product). suggestionItem index product) (enumerate n ps)) =
   map (\<lambda>p. (metadata p @ ''/html/'', metadata p @ ''/html/'')) ps" for n
    by (induction ps arbitrary: n) (simp_all add: suggestionItem_def)
  then show ?thesis by (simp add: suggestionItems_def)
qed

lemma suggestionItems_items: "filter is_SuggestionItem (suggestionItems ps) = suggestionItems ps"
  by (auto simp: suggestionItems_def suggestionItem_def filter_id_conv)

lemma run_append: "run (es @ es') s = run es' (run es s)"
  by (simp add: run_def)

lemma run_Cons: "run (e # es) s = run es (step e s)"
  by (simp add: run_def)

lemma run_Nil: "run [] s = s"
  by (simp add: run_def)

lemma elapse_early:
  assumes "\<forall>t \<in> set (timers s). clock s + d < due t"
  shows "elapse d s = s\<lparr>clock := clock s + d\<rparr>"
proof -
  have "filter (\<lambda>t. due t \<le> clock s + d) (timers s) = []"
    using assms by (auto simp: filter_empty_conv)
  moreover have "filter (\<lambda>t. \<not> due t \<le> clock s + d) (timers s) = timers s"
    using assms by (auto simp: filter_id_conv)
  ultimately show ?thesis by (simp add: elapse_def)
qed

lemma elapse_fire:
  assumes "timers s = [tm]" and "due tm \<le> clock s + d"
  shows "elapse d s = timerCallback (arg tm) (s\<lparr>clock := clock s + d, timers := []\<rparr>)"
  using assms by (simp add: elapse_def)

lemma pending_handleSearch:
  assumes "timers_ok s" "shadow s \<noteq> None"
  shows "pending t (handleSearch t s)"
  using assms handleSearch_timers [OF assms(1), of t]
  by (auto simp: pending_def timers_ok_handleSearch)

lemma step_Input: "shadow s \<noteq> None \<Longrightarrow> step (Input t) s = handleSearch t s"
  by auto

lemma pending_next:
  assumes "pending t s" and "g < 300"
  shows "pending t' (step (Input t') (step (Elapse g) s))"
    and "inflight (step (Input t') (step (Elapse g) s)) = inflight s"
    and "nextReq (step (Input t') (step (Elapse g) s)) = nextReq s"
    and "nextCtl (step (Input t') (step (Elapse g) s)) = nextCtl s"
    and "generation (step (Input t') (step (Elapse g) s)) = generation s"
proof -
  from assms have e: "elapse g s = s\<lparr>clock := clock s + g\<rparr>"
    by (intro elapse_early) (auto simp: pending_def)
  have ok: "timers_ok (s\<lparr>clock := clock s + g\<rparr>)"
    using assms(1) by (simp add: pending_def timers_ok_def)
  have sh: "shadow (s\<lparr>clock := clock s + g\<rparr>) \<noteq> None"
    using assms(1) by (simp add: pending_def)
  show "pending t' (step (Input t') (step (Elapse g) s))"
    using pending_handleSearch [OF ok sh, of t'] by (simp only: step.simps(5) e step_Input [OF sh])
  show "inflight (step (Input t') (step (Elapse g) s)) = inflight s"
    and "nextReq (step (Input t') (step (Elapse g) s)) = nextReq s"
    and "nextCtl (step (Input t') (step (Elapse g) s)) = nextCtl s"
    and "generation (step (Input t') (step (Elapse g) s)) = generation s"
    by (simp_all only: step.simps(5) e step_Input [OF sh]) simp_all
qed

lemma pending_rest:
  assumes "pending t s" and "\<forall>(g, t') \<in> set rest. g < 300"
  shows "pending (last (t # map snd rest)) (run (concat (map (\<lambda>(g, t'). [Elapse g, Input t']) rest)) s)
       \<and> inflight (run (concat (map (\<lambda>(g, t'). [Elapse g, Input t']) rest)) s) = inflight s
       \<and> nextReq (run (concat (map (\<lambda>(g, t'). [Elapse g, Input t']) rest)) s) = nextReq s
       \<and> nextCtl (run (concat (map (\<lambda>(g, t'). [Elapse g, Input t']) rest)) s) = nextCtl s
       \<and> generation (run (concat (map (\<lambda>(g, t'). [Elapse g, Input t']) rest)) s) = generation s"
  using assms
proof (induction rest arbitrary: t s)
  case Nil
  then show ?case by (simp add: run_Nil)
next
  case (Cons p rest)
  obtain g t' where p: "p = (g, t')" by (cases p)
  with Cons.prems have g: "g < 300" and rest: "\<forall>(g, t') \<in> set rest. g < 300" by auto
  note nxt = pending_next [OF Cons.prems(1) g, of t']
  from Cons.IH [OF nxt(1) rest] nxt(2-5) show ?case
    by (simp add: p run_Cons)
qed

lemma pending_fire:
  assumes "pending t s" and "300 \<le> d"
  shows "step (Elapse d) s = timerCallback t (s\<lparr>clock := clock s + d, timers := []\<rparr>)"
proof -
  from assms(1) obtain i where tm: "timers s = [\<lparr>tid = i, due = clock s + 300, arg = t\<rparr>]"
    by (auto simp: pending_def)
  show ?thesis
    using elapse_fire [OF tm, of d] assms(2) by simp
qed

subsection \<open>The terms that cannot be encoded\<close>

lemma unreserved_not_surrogate: "unreservedUnit c \<Longrightarrow> \<not> isLead c \<and> \<not> isTrail c"
  by (simp add: unreservedUnit_def isLead_def isTrail_def)

lemma lead_not_trail: "isLead c \<Longrightarrow> \<not> isTrail c"
  by (simp add: isLead_def isTrail_def)

lemma encodeURIComponent_None: "encodeURIComponent t = None \<longleftrightarrow> unpairedSurrogate t"
proof (induction t rule: unpairedSurrogate.induct)
  case 1
  then show ?case by simp
next
  case (2 c)
  then show ?case using unreserved_not_surrogate [of c] by auto
next
  case (3 c d ds)
  then show ?case
    using unreserved_not_surrogate [of c] lead_not_trail [of c]
    by (cases "isLead c")
       (auto simp del: encodeURIComponent.simps(2) simp add: encodeURIComponent.simps(2) [of c])
qed

lemma searchUrl_None: "searchUrl t = None \<longleftrightarrow> unpairedSurrogate t"
  by (cases t) (simp_all add: searchUrl_def encodeURIComponent_None del: encodeURIComponent.simps)

section \<open>The claims\<close>

text \<open>
  Claim C1: in every reachable state the items are exactly the pages fetched for the
  current generation, and a response of an older generation, fresh search or
  continuation, is never merged.  The code breaks this for continuations:
  \<open>fetchMoreProducts\<close> passes no signal and checks nothing when it resumes.  In the
  run \<open>staleMerge\<close> a continuation is issued in generation 1, a search for \<open>x\<close>
  starts generation 2 and its page arrives; the continuation of generation 1 is still
  in flight, and when it answers its page is appended to the items of generation 2.
\<close>

theorem stale_continuation_is_merged:
  "inflight (run staleMerge init) =
     [\<lparr>rid = 1, url = ''https://m/page2'', signal = None, awaiting = FetchMoreProducts, gen = 1\<rparr>]
   \<and> generation (run staleMerge init) = 2
   \<and> products (run staleMerge init) = [productX]
   \<and> products (step (Response 1 (Ok200 (page [productB] None))) (run staleMerge init))
       = [productX, productB]"
  by code_simp

text \<open>
  Claim C2: a fresh-search response issued for a generation older than the current one
  alters nothing that is visible.  In every reachable state, when such a request
  settles, whatever the server answered, the state is the one before with the request
  gone from the requests in flight: items, cursor, loading flag and the rendered list
  are untouched.
\<close>

theorem stale_fresh_response_is_dropped:
  assumes "find (\<lambda>r. rid r = i) (inflight (run es init)) = Some r"
      and "awaiting r = FetchProducts"
      and "gen r < generation (run es init)"
  shows "step (Response i rep) (run es init) =
           (run es init)\<lparr>inflight := filter (\<lambda>r. rid r \<noteq> i) (inflight (run es init))\<rparr>"
proof -
  have "settle r rep (run es init) = Rejected ''AbortError''"
    using reachable_request [OF assms(1)] assms(2,3)
    by (auto simp: request_ok_def settle_def split: option.splits)
  then show ?thesis
    by (simp add: respond_fresh [OF assms(1,2)] fetchProducts_resume_def fetchProducts_catch_def)
qed

theorem stale_fresh_response_is_dropped_witness:
  "find (\<lambda>r. rid r = 0) (inflight (run retyped init)) =
     Some \<lparr>rid = 0, url = baseUrl, signal = Some 0, awaiting = FetchProducts, gen = 1\<rparr>
   \<and> generation (run retyped init) = 2
   \<and> step (Response 0 (Ok200 (page [productA] None))) (run retyped init) =
       (run retyped init)\<lparr>inflight := filter (\<lambda>r. rid r \<noteq> 0) (inflight (run retyped init))\<rparr>"
proof -
  let ?r = "\<lparr>rid = 0, url = baseUrl, signal = Some 0, awaiting = FetchProducts, gen = 1\<rparr>"
  have h1: "find (\<lambda>r. rid r = 0) (inflight (run retyped init)) = Some ?r" by code_simp
  have h2: "awaiting ?r = FetchProducts" by simp
  have g: "generation (run retyped init) = 2" by code_simp
  then have h3: "gen ?r < generation (run retyped init)" by simp
  from h1 g stale_fresh_response_is_dropped [OF h1 h2 h3] show ?thesis by blast
qed

text \<open>
  Claim C3: on detach the pending debounce is cancelled, the fresh-search request in
  flight is cancelled and the observer is detached, so that no callback fires afterwards.
  \<open>disconnectedCallback\<close> only disconnects the observer.  In the run \<open>detached\<close>
  the widget is detached while the search for \<open>x\<close> is in flight and the debounce for
  \<open>xy\<close> is armed.  The observer observes no more, but the timer is still armed and
  the signal of the request is not aborted: the timer then fires and issues the search
  for \<open>xy\<close>, and the response to the search for \<open>x\<close> fills the items.
\<close>

theorem detach_leaves_timer_and_request_live:
  "observing (run detached init) = []
   \<and> timers (run detached init) = [\<lparr>tid = 2, due = 600, arg = [0x78, 0x79]\<rparr>]
   \<and> inflight (run detached init) =
       [\<lparr>rid = 1, url = ''https://sitn.ne.ch/geoshop2_api/product/?search=x'', signal = Some 1,
         awaiting = FetchProducts, gen = 2\<rparr>]
   \<and> 1 \<notin> aborted (run detached init)
   \<and> map url (inflight (step (Elapse 300) (run detached init))) =
       [''https://sitn.ne.ch/geoshop2_api/product/?search=x'',
        ''https://sitn.ne.ch/geoshop2_api/product/?search=xy'']
   \<and> products (run detached init) = []
   \<and> products (step (Response 1 (Ok200 (page [productX] None))) (run detached init)) = [productX]"
  by code_simp

text \<open>
  Claim C4: a fresh search of the current generation that fails with an error other than
  a cancellation leaves the loading flag false and the items empty, and renders the
  empty state; a cancellation changes nothing.  The \<open>catch\<close> block does not clear the
  items: it relies on the search having started from an empty list, which the debounce
  callback sees to and \<open>connectedCallback\<close> does not.  In the run \<open>reattached\<close> the
  widget is attached again after a page was shown; the search that
  \<open>connectedCallback\<close> starts is the current one and its signal is not aborted, and
  when it fails the items are still those of the search before, and they are rendered.
\<close>

theorem reattach_failure_renders_old_items:
  "inflight (run reattached init) =
     [\<lparr>rid = 1, url = baseUrl, signal = Some 1, awaiting = FetchProducts, gen = 2\<rparr>]
   \<and> generation (run reattached init) = 2
   \<and> 1 \<notin> aborted (run reattached init)
   \<and> \<not> loading (step (Response 1 NotOk) (run reattached init))
   \<and> products (step (Response 1 NotOk) (run reattached init)) = [productA]
   \<and> map_option children (shadow (step (Response 1 NotOk) (run reattached init))) =
       Some [SuggestionItem False ''https://m/a/html/'' ''https://m/a/html/'' ''A'']"
  by code_simp

text \<open>
  Claim C5, as stated: every render with a cursor attaches the observation to a sentinel,
  and every render without a cursor detaches it.  Neither holds.  After the last page of
  a scrolled list is rendered the cursor is null, and the observer attached by the
  render before still observes; and a page with no results and a cursor renders the
  no-results element, with no sentinel and no observer.
\<close>

theorem observer_not_detached_counterexample:
  "nextPage (run (scrolling @ [Response 1 (Ok200 (page [productB] None))]) init) = None
   \<and> observing (run (scrolling @ [Response 1 (Ok200 (page [productB] None))]) init) = [(0, 0)]
   \<and> nextPage (run [Connect, Response 0 (Ok200 (page [] (Some ''https://m/page2'')))] init)
       = Some ''https://m/page2''
   \<and> observing (run [Connect, Response 0 (Ok200 (page [] (Some ''https://m/page2'')))] init) = []
   \<and> map_option children
        (shadow (run [Connect, Response 0 (Ok200 (page [] (Some ''https://m/page2'')))] init))
       = Some [NoResults]"
  by code_simp

text \<open>
  Claim C5, amended: at every moment at most one observer observes.  A render of a
  non-empty list with a truthy cursor (neither null nor the empty string) appends a new
  sentinel and attaches a new observer to it, the previous one being disconnected first,
  so that the new observer is the only one.  Every other render puts no sentinel in the
  list and leaves the observer as it was: it is not disconnected.
\<close>

theorem observer_attach_on_render:
  "length (observing (run es init)) \<le> 1
   \<and> (observers_ok s \<and> shadow s \<noteq> None \<and> products s \<noteq> [] \<and> truthy (nextPage s) \<longrightarrow>
        observing (updateList s) = [(nextObs s, nextElem s)]
      \<and> observer (updateList s) = Some (nextObs s)
      \<and> (\<exists>d. shadow (updateList s) = Some d \<and> Sentinel (nextElem s) \<in> set (children d)))
   \<and> (\<not> (products s' \<noteq> [] \<and> truthy (nextPage s')) \<longrightarrow>
        observing (updateList s') = observing s'
      \<and> observer (updateList s') = observer s'
      \<and> (\<forall>d n. shadow (updateList s') = Some d \<longrightarrow> Sentinel n \<notin> set (children d)))"
proof (intro conjI impI; (elim conjE)?)
  show "length (observing (run es init)) \<le> 1"
    using reachable_ok [of es] by (simp add: observers_ok_def)
next
  assume ok: "observers_ok s" and sh: "shadow s \<noteq> None" and ps: "products s \<noteq> []"
    and np: "truthy (nextPage s)"
  have ok': "observers_ok (s\<lparr>nextElem := Suc (nextElem s)\<rparr>)"
    using ok by (simp add: observers_ok_def)
  note su = observers_ok_setup [OF ok', of "nextElem s"]
  from sh ps np su show "observing (updateList s) = [(nextObs s, nextElem s)]"
    and "observer (updateList s) = Some (nextObs s)"
    and "\<exists>d. shadow (updateList s) = Some d \<and> Sentinel (nextElem s) \<in> set (children d)"
    by (auto simp: updateList_def Let_def)
next
  assume n: "\<not> (products s' \<noteq> [] \<and> truthy (nextPage s'))"
  then show "observing (updateList s') = observing s'"
    and "observer (updateList s') = observer s'"
    by (auto simp: updateList_def Let_def split: option.splits)
  from n show "\<forall>d n. shadow (updateList s') = Some d \<longrightarrow> Sentinel n \<notin> set (children d)"
    by (auto simp: updateList_def Let_def suggestionItems_def suggestionItem_def
             split: option.splits if_splits)
qed

theorem observer_attach_on_render_witness:
  "observers_ok (run firstPage init) \<and> shadow (run firstPage init) \<noteq> None
   \<and> products (run firstPage init) \<noteq> [] \<and> truthy (nextPage (run firstPage init))
   \<and> observing (run firstPage init) = [(0, 0)]
   \<and> observing (updateList (run firstPage init)) = [(1, 1)]
   \<and> products (run [Connect] init) = []
   \<and> observing (updateList (run [Connect] init)) = observing (run [Connect] init)"
proof -
  have h: "observers_ok (run firstPage init)" "shadow (run firstPage init) \<noteq> None"
    "products (run firstPage init) \<noteq> []" "truthy (nextPage (run firstPage init))"
    by code_simp+
  have v: "observing (run firstPage init) = [(0, 0)]" "nextObs (run firstPage init) = 1"
    "nextElem (run firstPage init) = 1" "products (run [Connect] init) = []"
    by code_simp+
  from h v observer_attach_on_render [of firstPage "run firstPage init" "run [Connect] init"]
  show ?thesis by simp
qed

text \<open>
  Claim C6: when a continuation fails, with any error, the items and the cursor are what
  they were before and the loading flag is false.  This holds for the response to any
  continuation in flight in any reachable state, and for a continuation that is issued
  and then fails it gives back the items and the cursor from before the call.
\<close>

theorem continuation_failure_frame:
  assumes "find (\<lambda>r. rid r = i) (inflight (run es init)) = Some r"
      and "awaiting r = FetchMoreProducts"
      and "failed rep"
  shows "products (step (Response i rep) (run es init)) = products (run es init)
       \<and> nextPage (step (Response i rep) (run es init)) = nextPage (run es init)
       \<and> \<not> loading (step (Response i rep) (run es init))
       \<and> products (step (Response (nextReq (run es init)) rep) (fetchMoreProducts (run es init)))
           = products (run es init)
       \<and> nextPage (step (Response (nextReq (run es init)) rep) (fetchMoreProducts (run es init)))
           = nextPage (run es init)"
proof -
  let ?s = "run es init"
  have rej: "\<exists>name. settle q rep s = Rejected name" for q s
    using assms(3) by (cases rep) (simp_all add: settle_def failed_def)
  obtain name where "settle r rep ?s = Rejected name" using rej by blast
  then have here: "products (step (Response i rep) ?s) = products ?s
       \<and> nextPage (step (Response i rep) ?s) = nextPage ?s
       \<and> \<not> loading (step (Response i rep) ?s)"
    by (simp add: respond_more [OF assms(1,2)] fetchMoreProducts_resume_def)
  have "products (respond (nextReq ?s) rep (fetchMoreProducts ?s)) = products ?s
      \<and> nextPage (respond (nextReq ?s) rep (fetchMoreProducts ?s)) = nextPage ?s"
  proof (cases "find (\<lambda>r. rid r = nextReq ?s) (inflight (fetchMoreProducts ?s))")
    case None
    then show ?thesis by (simp add: respond_def)
  next
    case (Some q)
    obtain name' where n: "settle q rep (fetchMoreProducts ?s) = Rejected name'"
      using rej by blast
    show ?thesis
    proof (cases "awaiting q")
      case FetchMoreProducts
      then show ?thesis
        using n by (simp add: respond_more [OF Some FetchMoreProducts] fetchMoreProducts_resume_def)
    next
      case FetchProducts
      then show ?thesis
        using n by (simp add: respond_fresh [OF Some FetchProducts] fetchProducts_resume_def)
    qed
  qed
  with here show ?thesis by simp
qed

theorem continuation_failure_frame_witness:
  "find (\<lambda>r. rid r = 1) (inflight (run scrolling init)) =
     Some \<lparr>rid = 1, url = ''https://m/page2'', signal = None, awaiting = FetchMoreProducts, gen = 1\<rparr>
   \<and> failed NotOk
   \<and> loading (run scrolling init)
   \<and> products (step (Response 1 NotOk) (run scrolling init)) = [productA]
   \<and> nextPage (step (Response 1 NotOk) (run scrolling init)) = Some ''https://m/page2''
   \<and> \<not> loading (step (Response 1 NotOk) (run scrolling init))"
proof -
  let ?r = "\<lparr>rid = 1, url = ''https://m/page2'', signal = None, awaiting = FetchMoreProducts, gen = 1\<rparr>"
  have h1: "find (\<lambda>r. rid r = 1) (inflight (run scrolling init)) = Some ?r" by code_simp
  have h2: "awaiting ?r = FetchMoreProducts" by simp
  have h3: "failed NotOk" by (simp add: failed_def)
  have v: "loading (run scrolling init)" "products (run scrolling init) = [productA]"
    "nextPage (run scrolling init) = Some ''https://m/page2''"
    by code_simp+
  from h1 h3 v continuation_failure_frame [OF h1 h2 h3] show ?thesis by simp
qed

text \<open>
  Claim C7: after a successful continuation the items are the previous items followed by
  the items of the new page, in order, the cursor is the page's next cursor and the
  loading flag is false.  This holds for the response to any continuation in flight in
  any reachable state.
\<close>

theorem continuation_success_appends:
  assumes "find (\<lambda>r. rid r = i) (inflight (run es init)) = Some r"
      and "awaiting r = FetchMoreProducts"
  shows "products (step (Response i (Ok200 p)) (run es init)) = products (run es init) @ results p
       \<and> nextPage (step (Response i (Ok200 p)) (run es init)) = next p
       \<and> \<not> loading (step (Response i (Ok200 p)) (run es init))"
proof -
  have "signal r = None"
    using reachable_request [OF assms(1)] assms(2) by (simp add: request_ok_def)
  then have "settle r (Ok200 p) (run es init) = Fulfilled p"
    by (simp add: settle_def)
  then show ?thesis
    by (simp add: respond_more [OF assms] fetchMoreProducts_resume_def)
qed

theorem continuation_success_appends_witness:
  "find (\<lambda>r. rid r = 1) (inflight (run scrolling init)) =
     Some \<lparr>rid = 1, url = ''https://m/page2'', signal = None, awaiting = FetchMoreProducts, gen = 1\<rparr>
   \<and> products (step (Response 1 (Ok200 (page [productB, productX] None))) (run scrolling init))
       = [productA, productB, productX]
   \<and> nextPage (step (Response 1 (Ok200 (page [productB, productX] None))) (run scrolling init)) = None
   \<and> \<not> loading (step (Response 1 (Ok200 (page [productB, productX] None))) (run scrolling init))"
proof -
  let ?r = "\<lparr>rid = 1, url = ''https://m/page2'', signal = None, awaiting = FetchMoreProducts, gen = 1\<rparr>"
  have h1: "find (\<lambda>r. rid r = 1) (inflight (run scrolling init)) = Some ?r" by code_simp
  have h2: "awaiting ?r = FetchMoreProducts" by simp
  have v: "products (run scrolling init) = [productA]" by code_simp
  from h1 v continuation_success_appends [OF h1 h2, of "page [productB, productX] None"]
  show ?thesis by (simp add: page_def)
qed

text \<open>
  Claim C8: \<open>fetchMoreProducts\<close> issues no request and changes nothing when the cursor
  is null or a load is in progress, and so does the observer's callback; calling it a
  second time while the first call's request is in flight changes nothing either.
\<close>

theorem loadMore_noop:
  "(nextPage s = None \<or> loading s \<longrightarrow> fetchMoreProducts s = s \<and> step (Intersect ob b) s = s)
   \<and> fetchMoreProducts (fetchMoreProducts s) = fetchMoreProducts s"
proof -
  have "fetchMoreProducts (fetchMoreProducts s) = fetchMoreProducts s"
  proof (cases "\<not> truthy (nextPage s) \<or> loading s")
    case True
    then show ?thesis by (simp add: fetchMoreProducts_skip)
  next
    case False
    then have "loading (fetchMoreProducts s)" using fetchMoreProducts_issue [of s] by simp
    then show ?thesis by (rule fetchMoreProducts_skip [OF disjI2])
  qed
  then show ?thesis
    by (auto simp: fetchMoreProducts_def observerCallback_def truthy_def)
qed

theorem loadMore_noop_witness:
  "loading (run scrolling init)
   \<and> map rid (inflight (run scrolling init)) = [1]
   \<and> fetchMoreProducts (run scrolling init) = run scrolling init
   \<and> step (Intersect 0 True) (run scrolling init) = run scrolling init"
proof -
  have h: "loading (run scrolling init)" "map rid (inflight (run scrolling init)) = [1]"
    by code_simp+
  from h loadMore_noop [of "run scrolling init" 0 True] show ?thesis by blast
qed

text \<open>
  Claim C9, as stated: terms typed less than 300 ms apart lead to exactly one fetch, for
  the last term.  It fails when the last term holds an unpaired surrogate: here \<open>a\<close>
  is typed, then \<open>a\<close> followed by a leading surrogate alone.  The debounce fires
  once, \<open>encodeURIComponent\<close> throws inside the \<open>try\<close>, and no request is made: the
  only request in flight is the one of the attach, the loading flag is false and no
  timer remains armed.
\<close>

theorem debounce_unpaired_surrogate_counterexample:
  "inflight (run (burst [0x61] [(100, [0x61, 0xD83D])] @ [Elapse 300]) (run [Connect] init))
     = inflight (run [Connect] init)
   \<and> map url (inflight (run (burst [0x61] [(100, [0x61, 0xD83D])] @ [Elapse 300])
                         (run [Connect] init)))
       = [''https://sitn.ne.ch/geoshop2_api/product/'']
   \<and> \<not> loading (run (burst [0x61] [(100, [0x61, 0xD83D])] @ [Elapse 300]) (run [Connect] init))
   \<and> timers (run (burst [0x61] [(100, [0x61, 0xD83D])] @ [Elapse 300]) (run [Connect] init)) = []"
  by code_simp

text \<open>
  Claim C9, amended: when the terms \<open>t\<close>, then those of \<open>rest\<close>, are typed, each less
  than 300 ms after the one before, and 300 ms or more then pass, exactly one search
  has been started, for the last term, and no timer remains armed.  That search issues
  exactly one request, for the last term, unless the term holds an unpaired surrogate:
  then, and only then, no request is issued, and the loading flag is false again.
\<close>

theorem debounce_single_fetch:
  assumes "shadow (run es init) \<noteq> None"
      and "\<forall>(g, t') \<in> set rest. g < 300"
      and "300 \<le> d"
  shows "(case searchUrl (last (t # map snd rest)) of
            Some u \<Rightarrow>
              inflight (run (burst t rest @ [Elapse d]) (run es init)) =
                inflight (run es init) @
                  [\<lparr>rid = nextReq (run es init), url = u,
                    signal = Some (nextCtl (run es init)), awaiting = FetchProducts,
                    gen = Suc (generation (run es init))\<rparr>]
          | None \<Rightarrow>
              inflight (run (burst t rest @ [Elapse d]) (run es init)) = inflight (run es init)
              \<and> \<not> loading (run (burst t rest @ [Elapse d]) (run es init)))
       \<and> (searchUrl (last (t # map snd rest)) = None
            \<longleftrightarrow> unpairedSurrogate (last (t # map snd rest)))
       \<and> generation (run (burst t rest @ [Elapse d]) (run es init)) = Suc (generation (run es init))
       \<and> timers (run (burst t rest @ [Elapse d]) (run es init)) = []"
proof -
  let ?s = "run es init"
  let ?s1 = "step (Input t) ?s"
  let ?s2 = "run (concat (map (\<lambda>(g, t'). [Elapse g, Input t']) rest)) ?s1"
  let ?tn = "last (t # map snd rest)"
  let ?s3 = "?s2\<lparr>clock := clock ?s2 + d, timers := [], products := [], nextPage := None\<rparr>"
  have p1: "pending t ?s1"
    using pending_handleSearch [OF conjunct1 [OF reachable_ok [of es]] assms(1), of t]
    by (simp only: step_Input [OF assms(1)])
  have same: "inflight ?s1 = inflight ?s" "nextReq ?s1 = nextReq ?s"
    "nextCtl ?s1 = nextCtl ?s" "generation ?s1 = generation ?s"
    by (simp_all only: step_Input [OF assms(1)]) simp_all
  note r = pending_rest [OF p1 assms(2)]
  have "run (burst t rest @ [Elapse d]) ?s = step (Elapse d) ?s2"
    by (simp add: burst_def run_append run_Cons run_Nil)
  also have "\<dots> = timerCallback ?tn (?s2\<lparr>clock := clock ?s2 + d, timers := []\<rparr>)"
    by (rule pending_fire [OF conjunct1 [OF r] assms(3)])
  also have "\<dots> = fetchProducts ?tn ?s3"
    by (simp only: timerCallback_def)
  finally have run: "run (burst t rest @ [Elapse d]) ?s = fetchProducts ?tn ?s3" .
  have s3: "inflight ?s3 = inflight ?s" "nextReq ?s3 = nextReq ?s"
    "nextCtl ?s3 = nextCtl ?s" "generation ?s3 = generation ?s"
    using r same by simp_all
  have "case searchUrl ?tn of
          Some u \<Rightarrow>
            inflight (fetchProducts ?tn ?s3) =
              inflight ?s @
                [\<lparr>rid = nextReq ?s, url = u, signal = Some (nextCtl ?s), awaiting = FetchProducts,
                  gen = Suc (generation ?s)\<rparr>]
        | None \<Rightarrow> inflight (fetchProducts ?tn ?s3) = inflight ?s \<and> \<not> loading (fetchProducts ?tn ?s3)"
  proof (cases "searchUrl ?tn")
    case None
    then show ?thesis
      using fetchProducts_refused [OF None, of ?s3] s3 by simp
  next
    case (Some u)
    then show ?thesis
      using fetchProducts_issued(1) [OF Some, of ?s3] s3 by simp
  qed
  moreover have "generation (fetchProducts ?tn ?s3) = Suc (generation ?s)"
    using s3 by simp
  moreover have "timers (fetchProducts ?tn ?s3) = []" by simp
  ultimately show ?thesis
    unfolding run using searchUrl_None [of ?tn] by simp
qed

theorem debounce_single_fetch_witness:
  "shadow (run [Connect] init) \<noteq> None
   \<and> map url (inflight (run (burst [0x61] [(100, [0x61, 0x62]), (299, [0x61, 0x20, 0x62])]
                              @ [Elapse 300])
                         (run [Connect] init)))
       = [''https://sitn.ne.ch/geoshop2_api/product/'',
          ''https://sitn.ne.ch/geoshop2_api/product/?search=a%20b'']
   \<and> timers (run (burst [0x61] [(100, [0x61, 0x62]), (299, [0x61, 0x20, 0x62])] @ [Elapse 300])
                (run [Connect] init)) = []"
proof -
  have h1: "shadow (run [Connect] init) \<noteq> None" by code_simp
  have h2: "\<forall>(g, t') \<in> set [(100, [0x61, 0x62]), (299, [0x61, 0x20, 0x62 :: 16 word])].
              g < (300::nat)"
    by simp
  have h3: "(300::nat) \<le> 300" by simp
  have v: "map url (inflight (run [Connect] init)) = [''https://sitn.ne.ch/geoshop2_api/product/'']"
    "searchUrl (last ([0x61] # map snd [(100::nat, [0x61, 0x62]), (299, [0x61, 0x20, 0x62])]))
       = Some ''https://sitn.ne.ch/geoshop2_api/product/?search=a%20b''"
    by code_simp+
  from h1 v debounce_single_fetch [OF h1 h2 h3, of "[0x61]"] show ?thesis by simp
qed

text \<open>
  Claim C10: in the list that \<open>updateList\<close> renders, the result items are those of the
  products, in order, and both the URL the click handler opens and the \<open>href\<close> of the
  link of each are the product's metadata followed by \<open>/html/\<close>.
\<close>

theorem item_navigation_url:
  assumes "shadow s \<noteq> None"
  shows "map (\<lambda>e. (onclick e, href e))
           (filter is_SuggestionItem (children (the (shadow (updateList s))))) =
         map (\<lambda>p. (metadata p @ ''/html/'', metadata p @ ''/html/'')) (products s)"
  using assms
  by (auto simp: updateList_def Let_def suggestionItems_items suggestionItems_links)

theorem item_navigation_url_witness:
  "shadow (run firstPage init) \<noteq> None
   \<and> map (\<lambda>e. (onclick e, href e))
       (filter is_SuggestionItem (children (the (shadow (updateList (run firstPage init))))))
     = [(''https://m/a/html/'', ''https://m/a/html/'')]"
proof -
  have h: "shadow (run firstPage init) \<noteq> None" by code_simp
  have v: "products (run firstPage init) = [productA]" by code_simp
  from h v item_navigation_url [OF h] show ?thesis by (simp add: productA_def)
qed

end
